theory Spec2Isabelle
  imports Main
begin

section \<open>Transpile Box: the coordinator of src/App.jsx\<close>

text \<open>
  The component \<open>App\<close> keeps its React state (\<open>files\<close>, \<open>isProcessing\<close>,
  \<open>progress\<close>, \<open>activeWorkers\<close>, \<open>toast\<close>) and two mutable refs (\<open>workersRef\<close>,
  \<open>queueRef\<close>). Every handler runs to completion on the single UI thread, so a handler
  is a function from the state before it to the state after it. JavaScript strings are
  modelled as \<open>string\<close>, \<open>null\<close> and \<open>undefined\<close> as \<open>None\<close>, and the counters
  (JavaScript numbers, exact far beyond any count reached here) as \<open>int\<close>.
\<close>

subsection \<open>String operations of JavaScript used by the handlers\<close>

text \<open>\<open>s.startsWith(p)\<close> at position 0.\<close>

definition startsWith :: "string \<Rightarrow> string \<Rightarrow> bool" where
  "startsWith s p = (take (length p) s = p)"

text \<open>\<open>s.endsWith(p)\<close>; also what the regular expression \<open>/p$/\<close> tests for a literal \<open>p\<close>.\<close>

definition endsWith :: "string \<Rightarrow> string \<Rightarrow> bool" where
  "endsWith s p = (length p \<le> length s \<and> drop (length s - length p) s = p)"

text \<open>\<open>s.includes(p)\<close>: \<open>p\<close> occurs somewhere in \<open>s\<close>.\<close>

fun includesStr :: "string \<Rightarrow> string \<Rightarrow> bool" where
  "includesStr [] p = (p = [])"
| "includesStr (c # cs) p = (startsWith (c # cs) p \<or> includesStr cs p)"

text \<open>
  \<open>s.replace(p, r)\<close> with a string pattern \<open>p\<close>: only the first occurrence of \<open>p\<close>
  is replaced (the replacements used in the source contain no \<open>$\<close>).
\<close>

fun replaceFirst :: "string \<Rightarrow> string \<Rightarrow> string \<Rightarrow> string" where
  "replaceFirst [] p r = (if p = [] then r else [])"
| "replaceFirst (c # cs) p r =
     (if startsWith (c # cs) p then r @ drop (length p) (c # cs)
      else c # replaceFirst cs p r)"

text \<open>\<open>s.replace(/p$/, r)\<close> for a literal \<open>p\<close>: the occurrence at the end, if there is one.\<close>

definition replaceAtEnd :: "string \<Rightarrow> string \<Rightarrow> string \<Rightarrow> string" where
  "replaceAtEnd s p r =
     (if endsWith s p then take (length s - length p) s @ r else s)"

subsection \<open>Data\<close>

text \<open>
  An item of the \<open>FileList\<close> handed to \<open>handleFiles\<close>, with the text its
  \<open>FileReader\<close> delivers.
\<close>

record file_item =
  name :: string
  webkitRelativePath :: string
  fileText :: string

text \<open>An element of the \<open>files\<close> state (the field \<open>id\<close> is \<open>f_id\<close> here).\<close>

record file_rec =
  f_id :: string
  originalName :: string
  newName :: string
  originalPath :: string
  newPath :: string
  inputContent :: string
  content :: "string option"
  error :: "string option"
  status :: string

subsection \<open>File intake: \<open>handleFiles\<close>\<close>

text \<open>
  The filter of \<open>handleFiles\<close>:
  \<open>f.name.match(/\.(ts|tsx|jsx|js)$/) && !f.name.includes('.d.ts')\<close>.
\<close>

definition matchesSourceExt :: "string \<Rightarrow> bool" where
  "matchesSourceExt n =
     (endsWith n ''.ts'' \<or> endsWith n ''.tsx'' \<or> endsWith n ''.jsx'' \<or> endsWith n ''.js'')"

definition isValidFile :: "file_item \<Rightarrow> bool" where
  "isValidFile f = (matchesSourceExt (name f) \<and> \<not> includesStr (name f) ''.d.ts'')"

definition validFiles :: "file_item list \<Rightarrow> file_item list" where
  "validFiles fileList = filter isValidFile fileList"

text \<open>\<open>const path = file.webkitRelativePath || file.name\<close>: the empty string is falsy.\<close>

definition pathOf :: "file_item \<Rightarrow> string" where
  "pathOf f = (if webkitRelativePath f = [] then name f else webkitRelativePath f)"

text \<open>The chain of \<open>endsWith\<close> tests of \<open>reader.onload\<close>, in the order of the source.\<close>

definition deriveNewName :: "string \<Rightarrow> string" where
  "deriveNewName n =
     (if endsWith n ''.ts'' then replaceFirst n ''.ts'' ''.js''
      else if endsWith n ''.tsx'' then replaceFirst n ''.tsx'' ''.js''
      else if endsWith n ''.jsx'' then replaceFirst n ''.jsx'' ''.js''
      else n)"

definition deriveNewPath :: "string \<Rightarrow> string \<Rightarrow> string" where
  "deriveNewPath n path =
     (if endsWith n ''.ts'' then replaceAtEnd path ''.ts'' ''.js''
      else if endsWith n ''.tsx'' then replaceAtEnd path ''.tsx'' ''.js''
      else if endsWith n ''.jsx'' then replaceAtEnd path ''.jsx'' ''.js''
      else path)"

text \<open>
  The record that \<open>reader.onload\<close> appends. The identifier
  (\<open>Date.now() + Math.random().toString(36).substr(2, 9)\<close>) is a parameter.
\<close>

definition newRecord :: "string \<Rightarrow> file_item \<Rightarrow> file_rec" where
  "newRecord i f =
     \<lparr> f_id = i,
       originalName = name f,
       newName = deriveNewName (name f),
       originalPath = pathOf f,
       newPath = deriveNewPath (name f) (pathOf f),
       inputContent = fileText f,
       content = None,
       error = None,
       status = ''idle'' \<rparr>"

text \<open>
  An element of \<open>queueRef.current\<close>, which is also the payload of
  \<open>worker.postMessage\<close>: \<open>{ id, content, filename }\<close>.
\<close>

record queue_task =
  q_id :: string
  q_content :: string
  q_filename :: string

text \<open>
  An element of \<open>workersRef.current\<close>: \<open>{ worker, busy, id }\<close>, with the property
  \<open>currentId\<close> that \<open>processQueue\<close> adds (\<open>undefined\<close> before, \<open>null\<close> once freed).
\<close>

record worker_slot =
  w_id :: nat
  busy :: bool
  currentId :: "string option"

text \<open>The data of a message from a worker: \<open>{ id, success, content, error }\<close>.\<close>

record worker_msg =
  m_id :: string
  success :: bool
  m_content :: "string option"
  m_error :: "string option"

record progress_rec =
  current :: int
  total :: int

text \<open>
  The state of the component. \<open>posted\<close> logs every \<open>worker.postMessage\<close> (the slot
  and the payload), \<open>toasts\<close> every \<open>showToast\<close> (message and type), both in the order
  of the calls.
\<close>

record app_state =
  files :: "file_rec list"
  isProcessing :: bool
  progress :: progress_rec
  activeWorkers :: int
  workersRef :: "worker_slot list"
  queueRef :: "queue_task list"
  posted :: "(nat \<times> queue_task) list"
  toasts :: "(string \<times> string) list"

definition initialState :: app_state where
  "initialState =
     \<lparr> files = [], isProcessing = False, progress = \<lparr> current = 0, total = 0 \<rparr>,
       activeWorkers = 0, workersRef = [], queueRef = [], posted = [], toasts = [] \<rparr>"

definition showToast :: "string \<Rightarrow> string \<Rightarrow> app_state \<Rightarrow> app_state" where
  "showToast msg type s = s\<lparr> toasts := toasts s @ [(msg, type)] \<rparr>"

subsection \<open>The worker pool\<close>

text \<open>
  \<open>navigator.hardwareConcurrency || 4\<close>: the parameter \<open>hc\<close> is what the browser
  reports, 0 standing for a missing or zero value.
\<close>

definition concurrency :: "nat \<Rightarrow> nat" where
  "concurrency hc = (if hc = 0 then 4 else hc)"

definition initWorkers :: "nat \<Rightarrow> app_state \<Rightarrow> app_state" where
  "initWorkers hc s =
     (if length (workersRef s) > 0 then s
      else s\<lparr> workersRef :=
             map (\<lambda>i. \<lparr> w_id = i, busy = False, currentId = None \<rparr>) [0 ..< concurrency hc] \<rparr>)"

definition terminateWorkers :: "app_state \<Rightarrow> app_state" where
  "terminateWorkers s = s\<lparr> workersRef := [], activeWorkers := 0 \<rparr>"

text \<open>
  \<open>Array.prototype.find\<close> returns the first element that satisfies the test, and the
  handlers then assign to its properties: \<open>updateFirst\<close> is that assignment, on the
  first element satisfying \<open>P\<close>.
\<close>

fun updateFirst :: "('a \<Rightarrow> bool) \<Rightarrow> ('a \<Rightarrow> 'a) \<Rightarrow> 'a list \<Rightarrow> 'a list" where
  "updateFirst P g [] = []"
| "updateFirst P g (x # xs) = (if P x then g x # xs else x # updateFirst P g xs)"

subsection \<open>The scheduler: \<open>processQueue\<close>\<close>

definition isFree :: "worker_slot \<Rightarrow> bool" where
  "isFree w = (\<not> busy w)"

definition assign :: "queue_task \<Rightarrow> worker_slot \<Rightarrow> worker_slot" where
  "assign task w = w\<lparr> busy := True, currentId := Some (q_id task) \<rparr>"

text \<open>
  One assignment of \<open>processQueue\<close>: \<open>queueRef.current.shift()\<close>, the free worker
  marked busy, \<open>setActiveWorkers(prev => prev + 1)\<close> and the \<open>postMessage\<close>. It is
  only called with a non-empty queue and a free worker \<open>fw\<close>.
\<close>

definition dispatch :: "queue_task \<Rightarrow> worker_slot \<Rightarrow> app_state \<Rightarrow> app_state" where
  "dispatch task fw s =
     s\<lparr> queueRef := tl (queueRef s),
        workersRef := updateFirst isFree (assign task) (workersRef s),
        activeWorkers := activeWorkers s + 1,
        posted := posted s @ [(w_id fw, task)] \<rparr>"

function processQueue :: "app_state \<Rightarrow> app_state" where
  "processQueue s =
     (case queueRef s of
        [] \<Rightarrow> (if list_all isFree (workersRef s) then s\<lparr> isProcessing := False \<rparr> else s)
      | task # rest \<Rightarrow>
          (case find isFree (workersRef s) of
             None \<Rightarrow> s
           | Some fw \<Rightarrow> processQueue (dispatch task fw s)))"
  by pat_completeness auto
termination
  by (relation "measure (\<lambda>s. length (queueRef s))") (auto simp: dispatch_def)

subsection \<open>The completion handler: \<open>handleWorkerMessage\<close>\<close>

definition applyResult :: "worker_msg \<Rightarrow> file_rec \<Rightarrow> file_rec" where
  "applyResult m f =
     (if f_id f = m_id m
      then f\<lparr> content := (if success m then m_content m else None),
              error := (if success m then None else m_error m),
              status := ''complete'' \<rparr>
      else f)"

definition holds :: "string \<Rightarrow> worker_slot \<Rightarrow> bool" where
  "holds i w = (busy w \<and> currentId w = Some i)"

definition release :: "worker_slot \<Rightarrow> worker_slot" where
  "release w = w\<lparr> busy := False, currentId := None \<rparr>"

definition freeWorker :: "string \<Rightarrow> app_state \<Rightarrow> app_state" where
  "freeWorker i s =
     (case find (holds i) (workersRef s) of
        None \<Rightarrow> s
      | Some workerObj \<Rightarrow>
          s\<lparr> workersRef := updateFirst (holds i) release (workersRef s),
             activeWorkers := activeWorkers s - 1 \<rparr>)"

definition countCompletion :: "app_state \<Rightarrow> app_state" where
  "countCompletion s = s\<lparr> progress := (progress s)\<lparr> current := current (progress s) + 1 \<rparr> \<rparr>"

definition handleWorkerMessage :: "worker_msg \<Rightarrow> app_state \<Rightarrow> app_state" where
  "handleWorkerMessage m s =
     processQueue
       (countCompletion
         (freeWorker (m_id m)
           (s\<lparr> files := map (applyResult m) (files s) \<rparr>)))"

subsection \<open>The worker: \<open>self.onmessage\<close> of \<open>WORKER_CODE\<close>\<close>

text \<open>
  \<open>Babel.transform\<close> is the parameter \<open>transform\<close>: from the content and the file name
  to the output code, or to the message of the exception it throws (\<open>Inl\<close>).
\<close>

definition workerOnMessage ::
  "(string \<Rightarrow> string \<Rightarrow> string + string) \<Rightarrow> queue_task \<Rightarrow> worker_msg" where
  "workerOnMessage transform t =
     (case transform (q_content t) (q_filename t) of
        Inr output \<Rightarrow>
          \<lparr> m_id = q_id t, success = True, m_content = Some output, m_error = None \<rparr>
      | Inl message \<Rightarrow>
          \<lparr> m_id = q_id t, success = False, m_content = None,
            m_error = Some (replaceFirst message (q_filename t @ '': '') []) \<rparr>)"

subsection \<open>The user's actions\<close>

definition enqueueTask :: "file_rec \<Rightarrow> queue_task" where
  "enqueueTask f = \<lparr> q_id = f_id f, q_content = inputContent f, q_filename = originalName f \<rparr>"

definition isIdle :: "file_rec \<Rightarrow> bool" where
  "isIdle f = (status f = ''idle'')"

definition handleConvert :: "app_state \<Rightarrow> app_state" where
  "handleConvert s =
     (let idleFiles = filter isIdle (files s) in
      if length idleFiles = 0 then s
      else processQueue
        (s\<lparr> isProcessing := True,
            progress := \<lparr> current = current (progress s),
                          total = total (progress s) + int (length idleFiles) \<rparr>,
            queueRef := queueRef s @ map enqueueTask idleFiles,
            files := map (\<lambda>f. if isIdle f then f\<lparr> status := ''pending'' \<rparr> else f) (files s) \<rparr>))"

definition handleClear :: "nat \<Rightarrow> app_state \<Rightarrow> app_state" where
  "handleClear hc s =
     (initWorkers hc (terminateWorkers (s\<lparr> queueRef := [] \<rparr>)))
       \<lparr> files := [], progress := \<lparr> current = 0, total = 0 \<rparr>, isProcessing := False \<rparr>"

definition removeFile :: "string \<Rightarrow> app_state \<Rightarrow> app_state" where
  "removeFile i s = s\<lparr> files := filter (\<lambda>f. f_id f \<noteq> i) (files s) \<rparr>"

text \<open>
  \<open>reader.onload\<close> of one accepted file: \<open>setFiles(prev => [...prev, record])\<close>.
\<close>

definition onload :: "string \<Rightarrow> file_item \<Rightarrow> app_state \<Rightarrow> app_state" where
  "onload i f s = s\<lparr> files := files s @ [newRecord i f] \<rparr>"

text \<open>
  The synchronous part of \<open>handleFiles\<close>: the early return on an empty list, the
  creation of the pool, and the toast when nothing passes the filter.
\<close>

definition handleFilesStart :: "nat \<Rightarrow> file_item list \<Rightarrow> app_state \<Rightarrow> app_state" where
  "handleFilesStart hc fileList s =
     (if length fileList = 0 then s
      else
        let s1 = (if length (workersRef s) = 0 then initWorkers hc s else s) in
        if length (validFiles fileList) = 0
        then showToast ''No valid TS/JS files found'' ''error'' s1
        else s1)"

text \<open>
  \<open>handleFiles\<close> with every read completing in the order of \<open>validFiles\<close> (the
  reads of a chunk are started in that order; the browser decides the order in which
  they complete). The identifier of the \<open>k\<close>-th accepted file is \<open>ids k\<close>.
\<close>

definition handleFiles ::
  "nat \<Rightarrow> (nat \<Rightarrow> string) \<Rightarrow> file_item list \<Rightarrow> app_state \<Rightarrow> app_state" where
  "handleFiles hc ids fileList s =
     (if length fileList = 0 then s
      else fold (\<lambda>(k, f). onload (ids k) f) (enumerate 0 (validFiles fileList))
             (handleFilesStart hc fileList s))"

subsection \<open>Export: \<open>handleDownloadZip\<close>\<close>

text \<open>
  JavaScript truthiness of a value that is \<open>null\<close> or a string: \<open>null\<close> and the empty
  string are falsy.
\<close>

definition truthy :: "string option \<Rightarrow> bool" where
  "truthy v = (case v of None \<Rightarrow> False | Some t \<Rightarrow> t \<noteq> [])"

text \<open>
  The \<open>forEach\<close> of \<open>handleDownloadZip\<close>, on the JSZip object \<open>zip\<close> and the counter
  \<open>addedCount\<close>. JSZip is a library loaded from a CDN: its method \<open>zip.file(name,
  data)\<close> is the parameter \<open>zipFile\<close>, and the type \<open>'z\<close> is that of its objects.
\<close>

fun addFiles ::
  "(string \<Rightarrow> string \<Rightarrow> 'z \<Rightarrow> 'z) \<Rightarrow> file_rec list \<Rightarrow> 'z \<times> nat \<Rightarrow> 'z \<times> nat" where
  "addFiles zipFile [] acc = acc"
| "addFiles zipFile (file # fs) (zipObj, addedCount) =
     (if \<not> truthy (error file) \<and> truthy (content file)
      then (case content file of
              Some c \<Rightarrow> addFiles zipFile fs (zipFile (newPath file) c zipObj, addedCount + 1)
            | None \<Rightarrow> addFiles zipFile fs (zipObj, addedCount))
      else addFiles zipFile fs (zipObj, addedCount))"

text \<open>
  What a call of \<open>handleDownloadZip\<close> does: nothing (\<open>NotLoaded\<close>); the error toast
  and no archive (\<open>ExportFailed\<close>, with the message and the type of the toast); the
  exception of calling \<open>window.saveAs\<close> when FileSaver is not loaded, after the archive
  was built and before any toast (\<open>SaveAsMissing\<close>); or the archive handed to
  \<open>window.saveAs\<close> under a file name, followed by the toast (\<open>Saved\<close>).
\<close>

datatype 'z export_result =
    NotLoaded
  | ExportFailed string string
  | SaveAsMissing
  | Saved 'z string string string

text \<open>
  \<open>jszip\<close> and \<open>fileSaver\<close> are \<open>window.JSZip\<close> and \<open>window.saveAs\<close> being present
  (the button is not gated on the scripts having loaded); \<open>newZip\<close> is
  \<open>new window.JSZip()\<close>.
\<close>

definition handleDownloadZip ::
  "bool \<Rightarrow> bool \<Rightarrow> 'z \<Rightarrow> (string \<Rightarrow> string \<Rightarrow> 'z \<Rightarrow> 'z) \<Rightarrow> file_rec list \<Rightarrow> 'z export_result" where
  "handleDownloadZip jszip fileSaver newZip zipFile fs =
     (if \<not> jszip then NotLoaded
      else
        (case addFiles zipFile fs (newZip, 0) of
           (zipObj, addedCount) \<Rightarrow>
             if addedCount = 0 then ExportFailed ''No valid files to zip'' ''error''
             else if \<not> fileSaver then SaveAsMissing
             else Saved zipObj ''converted_project.zip'' ''Download started!'' ''success''))"

text \<open>
  The file entries of a JSZip object, as the library documents \<open>file(name, data)\<close>:
  the object holds one entry for each name, and adding a file under a name that is
  already present replaces the data of that entry. The table lists the file entries
  (name and data) in the order in which their names were first added; the directory
  entries that JSZip creates for the parent folders of a name are not file entries
  and are not listed.
\<close>

fun jszipFile :: "string \<Rightarrow> string \<Rightarrow> (string \<times> string) list \<Rightarrow> (string \<times> string) list" where
  "jszipFile n d [] = [(n, d)]"
| "jszipFile n d (e # es) = (if fst e = n then (n, d) # es else e # jszipFile n d es)"

subsection \<open>Reachable states and runs\<close>

text \<open>
  The states the component can be in: from the initial state, by any of its event
  handlers, in any order. A file read can complete at any time for a file that passed
  the filter, with any identifier; a worker message is what \<open>self.onmessage\<close> posts
  for some task, and may arrive at any time (also twice, and also after a reset). This
  admits more runs than a browser produces, so what holds in every reachable state
  holds in every run of the program.
\<close>

inductive reachable :: "app_state \<Rightarrow> bool" where
  r_init: "reachable initialState"
| r_start: "reachable s \<Longrightarrow> reachable (handleFilesStart hc fileList s)"
| r_onload: "reachable s \<Longrightarrow> isValidFile f \<Longrightarrow> reachable (onload i f s)"
| r_convert: "reachable s \<Longrightarrow> reachable (handleConvert s)"
| r_message: "reachable s \<Longrightarrow> reachable (handleWorkerMessage (workerOnMessage transform t) s)"
| r_clear: "reachable s \<Longrightarrow> reachable (handleClear hc s)"
| r_remove: "reachable s \<Longrightarrow> reachable (removeFile i s)"

text \<open>
  A run in which every task that a slot holds is answered: \<open>completeHeld\<close> delivers, up
  to \<open>n\<close> times, the worker's message for the task of the first busy slot. The message
  is the one \<open>self.onmessage\<close> posts for the payload that was sent to that slot, found
  in the log of the \<open>postMessage\<close> calls.
\<close>

definition heldTask :: "app_state \<Rightarrow> queue_task option" where
  "heldTask s =
     (case find busy (workersRef s) of
        None \<Rightarrow> None
      | Some w \<Rightarrow> map_option snd (find (\<lambda>(k, t). Some (q_id t) = currentId w) (rev (posted s))))"

fun completeHeld ::
  "(string \<Rightarrow> string \<Rightarrow> string + string) \<Rightarrow> nat \<Rightarrow> app_state \<Rightarrow> app_state" where
  "completeHeld transform 0 s = s"
| "completeHeld transform (Suc n) s =
     (case heldTask s of
        None \<Rightarrow> s
      | Some t \<Rightarrow> completeHeld transform n (handleWorkerMessage (workerOnMessage transform t) s))"



subsection \<open>Example inputs\<close>

text \<open>Concrete inputs on which the theorems below are instantiated.\<close>

definition exampleItem :: file_item where
  "exampleItem = \<lparr> name = ''app.ts'', webkitRelativePath = [], fileText = ''x'' \<rparr>"

definition exampleTask :: queue_task where
  "exampleTask = enqueueTask (newRecord ''t1'' exampleItem)"

text \<open>One file read, one slot, conversion started: the task \<open>t1\<close> is with the worker.\<close>

definition exampleRunning :: app_state where
  "exampleRunning =
     handleConvert (onload ''t1'' exampleItem (handleFilesStart 1 [exampleItem] initialState))"

text \<open>A transformation whose output is the empty string, and one that throws.\<close>

definition emptyOutput :: "string \<Rightarrow> string \<Rightarrow> string + string" where
  "emptyOutput c n = Inr []"

definition failingTransform :: "string \<Rightarrow> string \<Rightarrow> string + string" where
  "failingTransform c n = Inl (n @ '': Unexpected token'')"

definition exampleMessage :: worker_msg where
  "exampleMessage = workerOnMessage emptyOutput exampleTask"

text \<open>The result of \<open>t1\<close> has arrived.\<close>

definition exampleDone :: app_state where
  "exampleDone = handleWorkerMessage exampleMessage exampleRunning"

definition exampleIds :: "nat \<Rightarrow> string" where
  "exampleIds k = replicate (Suc k) CHR ''t''"

text \<open>Three files \<open>a.ts\<close>, \<open>b.tsx\<close> and \<open>c.js\<close>, read with the identifiers \<open>t\<close>, \<open>tt\<close>
  and \<open>ttt\<close>, and a pool of one slot.\<close>

definition exampleA :: file_item where
  "exampleA = \<lparr> name = ''a.ts'', webkitRelativePath = [], fileText = ''x'' \<rparr>"

definition exampleB :: file_item where
  "exampleB = \<lparr> name = ''b.tsx'', webkitRelativePath = [], fileText = ''y'' \<rparr>"

definition exampleC :: file_item where
  "exampleC = \<lparr> name = ''c.js'', webkitRelativePath = [], fileText = ''z'' \<rparr>"

definition exampleThree :: app_state where
  "exampleThree = handleFiles 1 exampleIds [exampleA, exampleB, exampleC] initialState"

text \<open>
  The files \<open>a.ts\<close> and \<open>b.tsx\<close> with a pool of two slots, conversion started: both
  tasks are with a worker. Then the result of the first has arrived.
\<close>

definition examplePair :: app_state where
  "examplePair = handleConvert (handleFiles 2 exampleIds [exampleA, exampleB] initialState)"

definition exampleMessageA :: worker_msg where
  "exampleMessageA = workerOnMessage emptyOutput (enqueueTask (newRecord ''t'' exampleA))"

definition examplePairOne :: app_state where
  "examplePairOne = handleWorkerMessage exampleMessageA examplePair"

text \<open>
  The records of \<open>a.ts\<close> and \<open>a.tsx\<close>, selected as files (no relative path), after
  successful transformations.
\<close>

definition exampleSameA :: file_rec where
  "exampleSameA = (newRecord ''t'' exampleA)\<lparr> content := Some ''one'', status := ''complete'' \<rparr>"

definition exampleSameB :: file_rec where
  "exampleSameB =
     (newRecord ''tt'' \<lparr> name = ''a.tsx'', webkitRelativePath = [], fileText = ''y'' \<rparr>)
       \<lparr> content := Some ''two'', status := ''complete'' \<rparr>"

section \<open>Properties\<close>

subsection \<open>The string operations\<close>

lemma endsWith_iff: "endsWith s p \<longleftrightarrow> (\<exists>q. s = q @ p)"
  unfolding endsWith_def
  by (metis append_eq_conv_conj append_take_drop_id diff_add_inverse2 length_append le_add2 length_drop)

lemma startsWith_iff: "startsWith s p \<longleftrightarrow> (\<exists>b. s = p @ b)"
  unfolding startsWith_def
  by (metis append_eq_conv_conj append_take_drop_id)

lemma includesStr_iff: "includesStr s p \<longleftrightarrow> (\<exists>a b. s = a @ p @ b)"
proof (induction s)
  case Nil
  then show ?case by auto
next
  case (Cons c cs)
  show ?case
  proof
    assume "includesStr (c # cs) p"
    then consider "startsWith (c # cs) p" | "includesStr cs p" by auto
    then show "\<exists>a b. c # cs = a @ p @ b"
    proof cases
      case 1
      then obtain b where "c # cs = p @ b" by (auto simp: startsWith_iff)
      then have "c # cs = [] @ p @ b" by simp
      then show ?thesis by blast
    next
      case 2
      then obtain a b where "cs = a @ p @ b" using Cons.IH by blast
      then have "c # cs = (c # a) @ p @ b" by simp
      then show ?thesis by blast
    qed
  next
    assume "\<exists>a b. c # cs = a @ p @ b"
    then obtain a b where ab: "c # cs = a @ p @ b" by blast
    show "includesStr (c # cs) p"
    proof (cases a)
      case Nil
      with ab have "startsWith (c # cs) p" by (simp add: startsWith_iff)
      then show ?thesis by simp
    next
      case (Cons x a')
      with ab have "cs = a' @ p @ b" by simp
      then have "includesStr cs p" using Cons.IH by blast
      then show ?thesis by simp
    qed
  qed
qed

subsection \<open>File intake\<close>

lemma fold_onload:
  "files (fold (\<lambda>(k, f). onload (ids k) f) xs s) = files s @ map (\<lambda>(k, f). newRecord (ids k) f) xs"
  by (induction xs arbitrary: s) (auto simp: onload_def)

lemma files_handleFilesStart: "files (handleFilesStart hc fl s) = files s"
  by (simp add: handleFilesStart_def Let_def showToast_def initWorkers_def)

text \<open>
  Claim C4, as the code has it. \<open>handleFiles\<close> appends one record for each item of the
  list, in the order of the list, whose name ends in \<open>.ts\<close>, \<open>.tsx\<close>, \<open>.jsx\<close> or
  \<open>.js\<close> and does not contain \<open>.d.ts\<close> anywhere, and for no other item. The test of
  the source is \<open>includes('.d.ts')\<close>: it rejects the names ending in \<open>.d.ts\<close>, and
  also every other name in which \<open>.d.ts\<close> occurs.
\<close>

theorem handleFiles_creates_records:
  "files (handleFiles hc ids fileList s) =
   files s @ map (\<lambda>(k, f). newRecord (ids k) f)
     (enumerate 0 (filter (\<lambda>f.
        ((\<exists>q. name f = q @ ''.ts'') \<or> (\<exists>q. name f = q @ ''.tsx'') \<or>
         (\<exists>q. name f = q @ ''.jsx'') \<or> (\<exists>q. name f = q @ ''.js'')) \<and>
        \<not> (\<exists>a b. name f = a @ ''.d.ts'' @ b)) fileList))"
proof -
  have "isValidFile = (\<lambda>f.
        ((\<exists>q. name f = q @ ''.ts'') \<or> (\<exists>q. name f = q @ ''.tsx'') \<or>
         (\<exists>q. name f = q @ ''.jsx'') \<or> (\<exists>q. name f = q @ ''.js'')) \<and>
        \<not> (\<exists>a b. name f = a @ ''.d.ts'' @ b))"
    by (intro ext) (simp add: isValidFile_def matchesSourceExt_def endsWith_iff includesStr_iff)
  then show ?thesis
    by (cases "fileList = []")
       (simp_all add: handleFiles_def fold_onload files_handleFilesStart validFiles_def enumerate_eq_zip)
qed

text \<open>
  Claim C4 as stated fails: the name \<open>view.d.tsx\<close> ends in the source extension
  \<open>.tsx\<close> and does not end in \<open>.d.ts\<close>, yet no record is created for it.
\<close>

theorem handleFiles_rejects_d_tsx:
  "matchesSourceExt ''view.d.tsx'' \<and> \<not> endsWith ''view.d.tsx'' ''.d.ts'' \<and>
   files (handleFiles 4 exampleIds
           [\<lparr> name = ''view.d.tsx'', webkitRelativePath = [], fileText = ''x'' \<rparr>] initialState) = []"
  by (simp add: endsWith_def isValidFile_def matchesSourceExt_def startsWith_def handleFiles_def
        validFiles_def handleFilesStart_def initialState_def showToast_def initWorkers_def)

text \<open>
  The path is remapped at its end: for a name ending in the extension \<open>e\<close>, one of
  \<open>.ts\<close>, \<open>.tsx\<close> and \<open>.jsx\<close>, and a path ending in that name, \<open>newPath\<close> is the
  path with its final \<open>e\<close> replaced by \<open>.js\<close>.
\<close>

lemma deriveNewPath_at_end:
  assumes "n = b @ e" and "e = ''.ts'' \<or> e = ''.tsx'' \<or> e = ''.jsx''"
  shows "deriveNewPath n (d @ n) = d @ b @ ''.js''"
proof -
  have "endsWith (d @ b @ e) e"
    by (simp add: endsWith_def)
  moreover have "endsWith (b @ e) e"
    by (simp add: endsWith_def)
  ultimately show ?thesis
    using assms by (auto simp: deriveNewPath_def replaceAtEnd_def endsWith_iff)
qed

text \<open>
  Claim C5 at the file name \<open>legacy.ts.ts\<close>, which passes the filter. The path is
  remapped at its end (\<open>path.replace(/\.ts$/, '.js')\<close>), but the name is remapped by
  \<open>file.name.replace('.ts', '.js')\<close>, which replaces the first occurrence of \<open>.ts\<close>:
  \<open>newName\<close> is \<open>legacy.js.ts\<close>, not \<open>legacy.ts.js\<close>.
\<close>

theorem newName_replaces_first_occurrence:
  "isValidFile \<lparr> name = ''legacy.ts.ts'', webkitRelativePath = ''src/legacy.ts.ts'', fileText = t \<rparr> \<and>
   newName (newRecord i
     \<lparr> name = ''legacy.ts.ts'', webkitRelativePath = ''src/legacy.ts.ts'', fileText = t \<rparr>)
     = ''legacy.js.ts'' \<and>
   newPath (newRecord i
     \<lparr> name = ''legacy.ts.ts'', webkitRelativePath = ''src/legacy.ts.ts'', fileText = t \<rparr>)
     = ''src/legacy.ts.js''"
  by (simp add: endsWith_def isValidFile_def matchesSourceExt_def startsWith_def newRecord_def
        pathOf_def deriveNewName_def deriveNewPath_def replaceAtEnd_def)

text \<open>
  Claim C9. A file whose name ends in \<open>.js\<close> takes none of the three branches of
  \<open>reader.onload\<close>: its record has \<open>newName = originalName\<close> and
  \<open>newPath = originalPath\<close>.
\<close>

theorem js_item_keeps_name_and_path:
  "endsWith (name f) ''.js'' \<Longrightarrow>
   newName (newRecord i f) = originalName (newRecord i f) \<and>
   newPath (newRecord i f) = originalPath (newRecord i f)"
  by (auto simp: newRecord_def deriveNewName_def deriveNewPath_def endsWith_iff)

theorem js_item_keeps_name_and_path_witness:
  "endsWith ''main.js'' ''.js'' \<and>
   isValidFile \<lparr> name = ''main.js'', webkitRelativePath = ''src/main.js'', fileText = ''x'' \<rparr> \<and>
   newName (newRecord ''k1''
     \<lparr> name = ''main.js'', webkitRelativePath = ''src/main.js'', fileText = ''x'' \<rparr>) = ''main.js'' \<and>
   newPath (newRecord ''k1''
     \<lparr> name = ''main.js'', webkitRelativePath = ''src/main.js'', fileText = ''x'' \<rparr>) = ''src/main.js''"
  using js_item_keeps_name_and_path
          [of "\<lparr> name = ''main.js'', webkitRelativePath = ''src/main.js'', fileText = ''x'' \<rparr>" "''k1''"]
  by (simp add: endsWith_def isValidFile_def matchesSourceExt_def startsWith_def newRecord_def pathOf_def)

subsection \<open>The scheduler\<close>

text \<open>
  \<open>processQueue\<close> calls itself, so its defining equation is not a simplification
  rule; the three lemmas below are its three outcomes.
\<close>

declare processQueue.simps [simp del]

lemma processQueue_empty:
  "queueRef s = [] \<Longrightarrow>
   processQueue s = (if list_all isFree (workersRef s) then s\<lparr> isProcessing := False \<rparr> else s)"
  by (subst processQueue.simps) simp

lemma processQueue_nofree:
  "queueRef s = task # rest \<Longrightarrow> find isFree (workersRef s) = None \<Longrightarrow> processQueue s = s"
  by (subst processQueue.simps) simp

lemma processQueue_dispatch:
  "queueRef s = task # rest \<Longrightarrow> find isFree (workersRef s) = Some fw \<Longrightarrow>
   processQueue s = processQueue (dispatch task fw s)"
  by (subst processQueue.simps) simp

lemma scheduler_induct [case_names idle saturated dispatching]:
  assumes "\<And>s. queueRef s = [] \<Longrightarrow> P s"
    and "\<And>s task rest. queueRef s = task # rest \<Longrightarrow> find isFree (workersRef s) = None \<Longrightarrow> P s"
    and "\<And>s task rest fw. queueRef s = task # rest \<Longrightarrow> find isFree (workersRef s) = Some fw \<Longrightarrow>
           P (dispatch task fw s) \<Longrightarrow> P s"
  shows "P s"
proof (induction s rule: processQueue.induct)
  case (1 s)
  show ?case
  proof (cases "queueRef s")
    case Nil
    then show ?thesis by (rule assms(1))
  next
    case (Cons task rest)
    show ?thesis
    proof (cases "find isFree (workersRef s)")
      case None
      with Cons show ?thesis by (rule assms(2))
    next
      case (Some fw)
      from Cons Some "1.IH"[OF Cons Some] show ?thesis by (rule assms(3))
    qed
  qed
qed

lemma processQueue_files_upd:
  "processQueue (s\<lparr> files := F \<rparr>) = (processQueue s)\<lparr> files := F \<rparr>"
proof (induction s rule: scheduler_induct)
  case (idle s)
  then show ?case by (simp add: processQueue_empty)
next
  case (saturated s task rest)
  then show ?case by (simp add: processQueue_nofree)
next
  case (dispatching s task rest fw)
  have "dispatch task fw (s\<lparr>files := F\<rparr>) = (dispatch task fw s)\<lparr>files := F\<rparr>"
    by (simp add: dispatch_def)
  with dispatching show ?case by (simp add: processQueue_dispatch)
qed

lemma processQueue_progress_upd:
  "processQueue (s\<lparr> progress := p \<rparr>) = (processQueue s)\<lparr> progress := p \<rparr>"
proof (induction s rule: scheduler_induct)
  case (idle s)
  then show ?case by (simp add: processQueue_empty)
next
  case (saturated s task rest)
  then show ?case by (simp add: processQueue_nofree)
next
  case (dispatching s task rest fw)
  have "dispatch task fw (s\<lparr>progress := p\<rparr>) = (dispatch task fw s)\<lparr>progress := p\<rparr>"
    by (simp add: dispatch_def)
  with dispatching show ?case by (simp add: processQueue_dispatch)
qed

lemma processQueue_files: "files (processQueue s) = files s"
  by (induction s rule: scheduler_induct)
     (simp_all add: processQueue_empty processQueue_nofree processQueue_dispatch dispatch_def)

lemma processQueue_progress: "progress (processQueue s) = progress s"
  by (induction s rule: scheduler_induct)
     (simp_all add: processQueue_empty processQueue_nofree processQueue_dispatch dispatch_def)

lemma removeFile_processQueue: "processQueue (removeFile i s) = removeFile i (processQueue s)"
  by (simp add: removeFile_def processQueue_files_upd processQueue_files)

lemma freeWorker_files_upd: "freeWorker i (s\<lparr> files := F \<rparr>) = (freeWorker i s)\<lparr> files := F \<rparr>"
  by (simp add: freeWorker_def split: option.splits)

lemma files_freeWorker: "files (freeWorker i s) = files s"
  by (simp add: freeWorker_def split: option.splits)

lemma progress_freeWorker: "progress (freeWorker i s) = progress s"
  by (simp add: freeWorker_def split: option.splits)

lemma countCompletion_files_upd: "countCompletion (s\<lparr> files := F \<rparr>) = (countCompletion s)\<lparr> files := F \<rparr>"
  by (simp add: countCompletion_def)

lemma handleWorkerMessage_files:
  "files (handleWorkerMessage m s) = map (applyResult m) (files s)"
  by (simp add: handleWorkerMessage_def processQueue_files countCompletion_def files_freeWorker)

lemma handleWorkerMessage_progress:
  "progress (handleWorkerMessage m s) = (progress s)\<lparr> current := current (progress s) + 1 \<rparr>"
  by (simp add: handleWorkerMessage_def processQueue_progress countCompletion_def progress_freeWorker)

lemma handleWorkerMessage_files_upd:
  "handleWorkerMessage m (s\<lparr> files := F \<rparr>) = (handleWorkerMessage m s)\<lparr> files := map (applyResult m) F \<rparr>"
  by (simp add: handleWorkerMessage_def processQueue_files_upd countCompletion_files_upd freeWorker_files_upd)

text \<open>
  What the scheduler dispatches: with \<open>k\<close> free slots, \<open>processQueue\<close> posts the
  first \<open>k\<close> tasks of the queue, in their order, and leaves the others in the queue.
\<close>

lemma free_after_assign:
  "find isFree ws = Some fw \<Longrightarrow>
   Suc (length (filter isFree (updateFirst isFree (assign t) ws))) = length (filter isFree ws)"
  by (induction ws) (auto simp: isFree_def assign_def split: if_splits)

lemma find_isFree_None: "find isFree ws = None \<Longrightarrow> filter isFree ws = []"
  by (induction ws) (auto split: if_splits)

lemma processQueue_posts:
  "map snd (posted (processQueue s)) =
     map snd (posted s) @ take (length (filter isFree (workersRef s))) (queueRef s) \<and>
   queueRef (processQueue s) = drop (length (filter isFree (workersRef s))) (queueRef s)"
proof (induction s rule: scheduler_induct)
  case (idle s)
  then show ?case by (simp add: processQueue_empty)
next
  case (saturated s task rest)
  then show ?case by (simp add: processQueue_nofree find_isFree_None)
next
  case (dispatching s task rest fw)
  define k where "k = length (filter isFree (updateFirst isFree (assign task) (workersRef s)))"
  from free_after_assign[OF dispatching.hyps(2), of task]
  have k: "length (filter isFree (workersRef s)) = Suc k"
    by (simp add: k_def)
  have k': "length (filter isFree (workersRef (dispatch task fw s))) = k"
    by (simp add: dispatch_def k_def)
  have "posted (dispatch task fw s) = posted s @ [(w_id fw, task)]"
    and "queueRef (dispatch task fw s) = rest"
    using dispatching.hyps by (simp_all add: dispatch_def)
  with dispatching.IH dispatching.hyps k k' show ?case
    by (simp add: processQueue_dispatch)
qed

text \<open>
  Claim C10. \<open>removeFile\<close> filters the records with the given identifier out of
  \<open>files\<close> and touches nothing else: the queue, the slots and the counters are as
  before. A task of a removed record stays in the queue, and the scheduler dispatches
  it as any other: after \<open>removeFile\<close>, \<open>processQueue\<close> posts the first \<open>k\<close> tasks
  of the queue to the \<open>k\<close> free slots and keeps the others queued, exactly as without
  the removal (same \<open>postMessage\<close> calls, same queue, same slots). A worker message
  after \<open>removeFile\<close> does what it does without it, on the filtered registry, and
  adds one to \<open>current\<close>.
\<close>

theorem removeFile_frame:
  "files (removeFile i s) = filter (\<lambda>f. f_id f \<noteq> i) (files s) \<and>
   queueRef (removeFile i s) = queueRef s \<and>
   workersRef (removeFile i s) = workersRef s \<and>
   progress (removeFile i s) = progress s \<and>
   map snd (posted (processQueue (removeFile i s))) =
     map snd (posted s) @ take (length (filter isFree (workersRef s))) (queueRef s) \<and>
   queueRef (processQueue (removeFile i s)) =
     drop (length (filter isFree (workersRef s))) (queueRef s) \<and>
   posted (processQueue (removeFile i s)) = posted (processQueue s) \<and>
   queueRef (processQueue (removeFile i s)) = queueRef (processQueue s) \<and>
   workersRef (processQueue (removeFile i s)) = workersRef (processQueue s) \<and>
   handleWorkerMessage m (removeFile i s) = removeFile i (handleWorkerMessage m s) \<and>
   current (progress (handleWorkerMessage m (removeFile i s))) = current (progress s) + 1"
proof -
  have frame: "files (removeFile i s) = filter (\<lambda>f. f_id f \<noteq> i) (files s)"
    "queueRef (removeFile i s) = queueRef s"
    "workersRef (removeFile i s) = workersRef s"
    "progress (removeFile i s) = progress s"
    "posted (removeFile i s) = posted s"
    by (simp_all add: removeFile_def)
  have sched: "posted (processQueue (removeFile i s)) = posted (processQueue s)"
    "queueRef (processQueue (removeFile i s)) = queueRef (processQueue s)"
    "workersRef (processQueue (removeFile i s)) = workersRef (processQueue s)"
    by (simp_all add: removeFile_processQueue) (simp_all add: removeFile_def)
  have disp: "map snd (posted (processQueue (removeFile i s))) =
     map snd (posted s) @ take (length (filter isFree (workersRef s))) (queueRef s)"
    "queueRef (processQueue (removeFile i s)) =
     drop (length (filter isFree (workersRef s))) (queueRef s)"
    using processQueue_posts[of "removeFile i s"] by (simp_all add: frame)
  have "map (applyResult m) (filter (\<lambda>f. f_id f \<noteq> i) fs) =
        filter (\<lambda>f. f_id f \<noteq> i) (map (applyResult m) fs)" for fs
    by (induction fs) (auto simp: applyResult_def)
  then have msg: "handleWorkerMessage m (removeFile i s) = removeFile i (handleWorkerMessage m s)"
    by (simp add: removeFile_def handleWorkerMessage_files_upd handleWorkerMessage_files)
  have cnt: "current (progress (handleWorkerMessage m (removeFile i s))) = current (progress s) + 1"
    by (simp add: handleWorkerMessage_progress frame)
  from frame(1-4) sched disp msg cnt show ?thesis by blast
qed

text \<open>
  The three files with one slot: \<open>t\<close> is with the worker, \<open>tt\<close> and \<open>ttt\<close> are
  queued. The record of \<open>tt\<close> is removed; \<open>tt\<close> stays in the queue, is posted to
  the worker after \<open>t\<close>, and its result is counted: \<open>current\<close> reaches 3 with two
  records left.
\<close>

theorem removeFile_frame_witness:
  "map f_id (files (handleConvert exampleThree)) = [''t'', ''tt'', ''ttt''] \<and>
   map f_id (files (removeFile ''tt'' (handleConvert exampleThree))) = [''t'', ''ttt''] \<and>
   map q_id (queueRef (removeFile ''tt'' (handleConvert exampleThree))) = [''tt'', ''ttt''] \<and>
   map q_id (map snd (posted
     (completeHeld emptyOutput 1 (removeFile ''tt'' (handleConvert exampleThree))))) = [''t'', ''tt''] \<and>
   map q_id (map snd (posted
     (completeHeld emptyOutput 3 (removeFile ''tt'' (handleConvert exampleThree))))) =
     [''t'', ''tt'', ''ttt''] \<and>
   map f_id (files
     (completeHeld emptyOutput 3 (removeFile ''tt'' (handleConvert exampleThree)))) = [''t'', ''ttt''] \<and>
   progress (completeHeld emptyOutput 3 (removeFile ''tt'' (handleConvert exampleThree))) =
     \<lparr> current = 3, total = 3 \<rparr>"
proof -
  have q: "map q_id (queueRef (handleConvert exampleThree)) = [''tt'', ''ttt'']"
    by code_simp
  have f: "map f_id (filter (\<lambda>f. f_id f \<noteq> ''tt'') (files (handleConvert exampleThree))) = [''t'', ''ttt'']"
    by code_simp
  note th = removeFile_frame[of "''tt''" "handleConvert exampleThree"]
  from th q have a: "map q_id (queueRef (removeFile ''tt'' (handleConvert exampleThree))) = [''tt'', ''ttt'']"
    by simp
  from th f have b: "map f_id (files (removeFile ''tt'' (handleConvert exampleThree))) = [''t'', ''ttt'']"
    by simp
  have "map f_id (files (handleConvert exampleThree)) = [''t'', ''tt'', ''ttt''] \<and>
   map q_id (map snd (posted
     (completeHeld emptyOutput 1 (removeFile ''tt'' (handleConvert exampleThree))))) = [''t'', ''tt''] \<and>
   map q_id (map snd (posted
     (completeHeld emptyOutput 3 (removeFile ''tt'' (handleConvert exampleThree))))) =
     [''t'', ''tt'', ''ttt''] \<and>
   map f_id (files
     (completeHeld emptyOutput 3 (removeFile ''tt'' (handleConvert exampleThree)))) = [''t'', ''ttt''] \<and>
   progress (completeHeld emptyOutput 3 (removeFile ''tt'' (handleConvert exampleThree))) =
     \<lparr> current = 3, total = 3 \<rparr>"
    by code_simp
  with a b show ?thesis by simp
qed

subsection \<open>Export\<close>

lemma addFiles_eq:
  "addFiles zipFile fs (z, n) =
     (fold (\<lambda>f. zipFile (newPath f) (the (content f)))
        (filter (\<lambda>f. (error f = None \<or> error f = Some []) \<and> content f \<noteq> None \<and> content f \<noteq> Some []) fs) z,
      n + length (filter (\<lambda>f. (error f = None \<or> error f = Some []) \<and> content f \<noteq> None \<and> content f \<noteq> Some []) fs))"
  by (induction fs arbitrary: z n) (auto simp: truthy_def split: option.splits)

lemma map_of_jszipFile: "map_of (jszipFile n d es) = (map_of es)(n \<mapsto> d)"
  by (induction es) (auto simp: fun_eq_iff)

lemma names_jszipFile: "fst ` set (jszipFile n d es) = insert n (fst ` set es)"
  by (induction es) auto

lemma distinct_jszipFile: "distinct (map fst es) \<Longrightarrow> distinct (map fst (jszipFile n d es))"
  by (induction es) (auto simp: names_jszipFile)

lemma fold_jszipFile:
  "distinct (map fst es) \<Longrightarrow>
   distinct (map fst (fold (\<lambda>f. jszipFile (newPath f) (the (content f))) fs es)) \<and>
   map_of (fold (\<lambda>f. jszipFile (newPath f) (the (content f))) fs es) =
     map_of (rev (map (\<lambda>f. (newPath f, the (content f))) fs) @ es)"
proof (induction fs arbitrary: es)
  case Nil
  then show ?case by simp
next
  case (Cons f fs)
  from Cons.prems have "distinct (map fst (jszipFile (newPath f) (the (content f)) es))"
    by (rule distinct_jszipFile)
  from Cons.IH[OF this] show ?case
    by (simp add: map_of_jszipFile map_add_def fun_eq_iff split: option.splits)
qed

text \<open>
  Claim C6, as the code has it. With JSZip loaded, \<open>handleDownloadZip\<close> selects the
  records by truthiness, \<open>!file.error && file.content\<close>: those whose \<open>error\<close> is
  \<open>null\<close> or empty and whose \<open>content\<close> is neither \<open>null\<close> nor empty. On a new JSZip
  object it calls \<open>zip.file(newPath, content)\<close> once for each of them, in the order of
  \<open>files\<close>, and for no other record, whatever \<open>zip.file\<close> does; when there is none,
  the toast \<open>No valid files to zip\<close> is shown and no archive is produced; otherwise
  the archive is saved if \<open>window.saveAs\<close> is present. As JSZip keeps one file entry
  for each name, the file entries of the archive have distinct paths, and the entry of
  a path holds the content of the last selected record with that \<open>newPath\<close>: selected
  records with the same \<open>newPath\<close> give one entry, not one each.
\<close>

theorem handleDownloadZip_entries:
  "handleDownloadZip True fileSaver newZip zipFile fs =
     (if filter (\<lambda>f. (error f = None \<or> error f = Some []) \<and> content f \<noteq> None \<and> content f \<noteq> Some []) fs = []
      then ExportFailed ''No valid files to zip'' ''error''
      else if \<not> fileSaver then SaveAsMissing
      else Saved
        (fold (\<lambda>f. zipFile (newPath f) (the (content f)))
          (filter (\<lambda>f. (error f = None \<or> error f = Some []) \<and> content f \<noteq> None \<and> content f \<noteq> Some []) fs)
          newZip)
        ''converted_project.zip'' ''Download started!'' ''success'') \<and>
   distinct (map fst
     (fold (\<lambda>f. jszipFile (newPath f) (the (content f)))
       (filter (\<lambda>f. (error f = None \<or> error f = Some []) \<and> content f \<noteq> None \<and> content f \<noteq> Some []) fs)
       [])) \<and>
   map_of
     (fold (\<lambda>f. jszipFile (newPath f) (the (content f)))
       (filter (\<lambda>f. (error f = None \<or> error f = Some []) \<and> content f \<noteq> None \<and> content f \<noteq> Some []) fs)
       []) =
   map_of (rev (map (\<lambda>f. (newPath f, the (content f)))
       (filter (\<lambda>f. (error f = None \<or> error f = Some []) \<and> content f \<noteq> None \<and> content f \<noteq> Some []) fs)))"
proof -
  have "distinct (map fst ([] :: (string \<times> string) list))" by simp
  from fold_jszipFile[OF this] have table:
    "distinct (map fst (fold (\<lambda>f. jszipFile (newPath f) (the (content f))) xs [])) \<and>
     map_of (fold (\<lambda>f. jszipFile (newPath f) (the (content f))) xs []) =
       map_of (rev (map (\<lambda>f. (newPath f, the (content f))) xs))" for xs
    by simp
  have "handleDownloadZip True fileSaver newZip zipFile fs =
     (if filter (\<lambda>f. (error f = None \<or> error f = Some []) \<and> content f \<noteq> None \<and> content f \<noteq> Some []) fs = []
      then ExportFailed ''No valid files to zip'' ''error''
      else if \<not> fileSaver then SaveAsMissing
      else Saved
        (fold (\<lambda>f. zipFile (newPath f) (the (content f)))
          (filter (\<lambda>f. (error f = None \<or> error f = Some []) \<and> content f \<noteq> None \<and> content f \<noteq> Some []) fs)
          newZip)
        ''converted_project.zip'' ''Download started!'' ''success'')"
    by (simp add: handleDownloadZip_def addFiles_eq)
  with table show ?thesis by blast
qed

text \<open>
  Claim C6 as stated fails: after a transformation with empty output the only record
  has \<open>status = complete\<close> and \<open>error = null\<close>, so the set of the claim is not
  empty, yet the export reports the failure and produces no archive.
\<close>

theorem export_skips_empty_output:
  "map status (files exampleDone) = [''complete''] \<and>
   map error (files exampleDone) = [None] \<and>
   map content (files exampleDone) = [Some []] \<and>
   handleDownloadZip True True [] jszipFile (files exampleDone) =
     ExportFailed ''No valid files to zip'' ''error''"
  by code_simp

text \<open>
  Two completed records with the same \<open>newPath\<close>, as \<open>a.ts\<close> and \<open>a.tsx\<close> selected
  together give: the archive has one file entry \<open>a.js\<close>, with the content of the
  second.
\<close>

lemma same_newPath_one_entry:
  "map newPath [exampleSameA, exampleSameB] = [''a.js'', ''a.js''] \<and>
   handleDownloadZip True True [] jszipFile [exampleSameA, exampleSameB] =
     Saved [(''a.js'', ''two'')] ''converted_project.zip'' ''Download started!'' ''success''"
  by code_simp

subsection \<open>Reachable states\<close>

lemma length_updateFirst: "length (updateFirst P g xs) = length xs"
  by (induction xs) auto

lemma nth_updateFirst_other: "k < length xs \<Longrightarrow> \<not> P (xs ! k) \<Longrightarrow> updateFirst P g xs ! k = xs ! k"
  by (induction xs arbitrary: k) (auto simp: nth_Cons split: nat.splits)

lemma set_updateFirst: "x \<in> set (updateFirst P g xs) \<Longrightarrow> x \<in> set xs \<or> (\<exists>y \<in> set xs. P y \<and> x = g y)"
  by (induction xs) (auto split: if_splits)



lemma find_None_filter: "find P xs = None \<longleftrightarrow> filter P xs = []"
  by (induction xs) auto

lemma no_holder_after_release:
  "length (filter (holds i) ws) \<le> 1 \<Longrightarrow> filter (holds i) (updateFirst (holds i) release ws) = []"
  by (induction ws) (auto simp: holds_def release_def split: if_splits)







lemma files_handleConvert:
  "files (handleConvert s) = map (\<lambda>f. if isIdle f then f\<lparr> status := ''pending'' \<rparr> else f) (files s)"
proof (cases "filter isIdle (files s) = []")
  case True
  then have "\<forall>f \<in> set (files s). \<not> isIdle f" by (simp add: filter_empty_conv)
  then have "map (\<lambda>f. if isIdle f then f\<lparr> status := ''pending'' \<rparr> else f) (files s) = files s"
    by (simp add: map_idI)
  with True show ?thesis by (simp add: handleConvert_def)
next
  case False
  then show ?thesis by (simp add: handleConvert_def Let_def processQueue_files)
qed


lemma reachable_exampleRunning: "reachable exampleRunning"
proof -
  have "isValidFile exampleItem" by code_simp
  then show ?thesis
    unfolding exampleRunning_def by (intro reachable.intros)
qed

lemma reachable_exampleDone: "reachable exampleDone"
  unfolding exampleDone_def exampleMessage_def by (intro reachable.intros reachable_exampleRunning)




subsection \<open>Completion\<close>

lemma reachable_complete:
  "reachable s \<Longrightarrow>
   \<forall>f \<in> set (files s). status f = ''complete'' \<longrightarrow> (content f = None) \<noteq> (error f = None)"
proof (induction rule: reachable.induct)
  case r_init
  show ?case by (simp add: initialState_def)
next
  case (r_start s hc fileList)
  then show ?case by (simp add: files_handleFilesStart)
next
  case (r_onload s f i)
  then show ?case by (simp add: onload_def newRecord_def)
next
  case (r_convert s)
  then show ?case by (auto simp: files_handleConvert isIdle_def)
next
  case (r_message s transform t)
  then show ?case
    by (auto simp: handleWorkerMessage_files applyResult_def workerOnMessage_def split: sum.splits if_splits)
next
  case (r_clear s hc)
  show ?case by (simp add: handleClear_def)
next
  case (r_remove s i)
  then show ?case by (simp add: removeFile_def)
qed

text \<open>
  Claim C7. The message that the worker posts for a task \<open>t\<close> makes
  \<open>handleWorkerMessage\<close> set every record with the identifier of \<open>t\<close> to
  \<open>complete\<close>: with the transformed text as \<open>content\<close> and \<open>error = null\<close> when the
  transformation succeeded, with \<open>content = null\<close> and the error message (the file name
  prefix removed) as \<open>error\<close> when it threw. In every reachable state a record with the
  status \<open>complete\<close> has exactly one of \<open>content\<close> and \<open>error\<close> non-null.
\<close>

theorem completion_sets_exactly_one:
  "reachable s \<Longrightarrow>
   files (handleWorkerMessage (workerOnMessage transform t) s) =
     map (\<lambda>f. if f_id f = q_id t
               then (case transform (q_content t) (q_filename t) of
                       Inr output \<Rightarrow> f\<lparr> content := Some output, error := None, status := ''complete'' \<rparr>
                     | Inl message \<Rightarrow>
                         f\<lparr> content := None,
                            error := Some (replaceFirst message (q_filename t @ '': '') []),
                            status := ''complete'' \<rparr>)
               else f) (files s) \<and>
   (\<forall>f \<in> set (files s). status f = ''complete'' \<longrightarrow> (content f = None) \<noteq> (error f = None))"
proof -
  assume r: "reachable s"
  have "applyResult (workerOnMessage transform t) =
     (\<lambda>f. if f_id f = q_id t
               then (case transform (q_content t) (q_filename t) of
                       Inr output \<Rightarrow> f\<lparr> content := Some output, error := None, status := ''complete'' \<rparr>
                     | Inl message \<Rightarrow>
                         f\<lparr> content := None,
                            error := Some (replaceFirst message (q_filename t @ '': '') []),
                            status := ''complete'' \<rparr>)
               else f)"
    by (intro ext) (simp add: applyResult_def workerOnMessage_def split: sum.splits)
  with reachable_complete[OF r] show ?thesis
    by (simp add: handleWorkerMessage_files)
qed

theorem completion_sets_exactly_one_witness:
  "reachable exampleRunning \<and> reachable exampleDone \<and>
   map status (files exampleDone) = [''complete''] \<and>
   list_all (\<lambda>f. (content f = None) \<noteq> (error f = None)) (files exampleDone) \<and>
   map (\<lambda>f. (status f, content f, error f))
     (files (handleWorkerMessage (workerOnMessage failingTransform exampleTask) exampleRunning)) =
     [(''complete'', None, Some ''Unexpected token'')]"
proof -
  have st: "map status (files exampleDone) = [''complete'']"
    by code_simp
  have "\<forall>f \<in> set (files exampleDone). status f = ''complete'' \<longrightarrow> (content f = None) \<noteq> (error f = None)"
    using completion_sets_exactly_one[OF reachable_exampleDone, where transform = emptyOutput and t = exampleTask]
    by (rule conjunct2)
  moreover from st have "\<forall>f \<in> set (files exampleDone). status f = ''complete''"
    by (cases "files exampleDone") auto
  ultimately have inv: "list_all (\<lambda>f. (content f = None) \<noteq> (error f = None)) (files exampleDone)"
    by (simp add: list_all_iff)
  have ev: "map (\<lambda>f. (status f, content f, error f))
     (map (\<lambda>f. if f_id f = q_id exampleTask
               then (case failingTransform (q_content exampleTask) (q_filename exampleTask) of
                       Inr output \<Rightarrow> f\<lparr> content := Some output, error := None, status := ''complete'' \<rparr>
                     | Inl message \<Rightarrow>
                         f\<lparr> content := None,
                            error := Some (replaceFirst message (q_filename exampleTask @ '': '') []),
                            status := ''complete'' \<rparr>)
               else f) (files exampleRunning)) =
     [(''complete'', None, Some ''Unexpected token'')]"
    by code_simp
  have "map (\<lambda>f. (status f, content f, error f))
     (files (handleWorkerMessage (workerOnMessage failingTransform exampleTask) exampleRunning)) =
     [(''complete'', None, Some ''Unexpected token'')]"
    using completion_sets_exactly_one[OF reachable_exampleRunning,
            where transform = failingTransform and t = exampleTask, THEN conjunct1] ev
    by (simp only:)
  with st inv reachable_exampleRunning reachable_exampleDone show ?thesis by simp
qed

subsection \<open>Results that no slot holds, and results after a reset\<close>

lemma processQueue_keeps_busy:
  "length (workersRef (processQueue s)) = length (workersRef s) \<and>
   (\<forall>k < length (workersRef s). busy (workersRef s ! k) \<longrightarrow> workersRef (processQueue s) ! k = workersRef s ! k)"
proof (induction s rule: scheduler_induct)
  case (idle s)
  then show ?case by (simp add: processQueue_empty)
next
  case (saturated s task rest)
  then show ?case by (simp add: processQueue_nofree)
next
  case (dispatching s task rest fw)
  have "workersRef (dispatch task fw s) = updateFirst isFree (assign task) (workersRef s)"
    by (simp add: dispatch_def)
  with dispatching show ?case
    by (simp add: processQueue_dispatch length_updateFirst nth_updateFirst_other isFree_def)
qed

lemma freeWorker_none: "find (holds i) (workersRef s) = None \<Longrightarrow> freeWorker i s = s"
  by (simp add: freeWorker_def)

lemma handleClear_fields:
  "files (handleClear hc s) = []" "queueRef (handleClear hc s) = []"
  "isProcessing (handleClear hc s) = False"
  "workersRef (handleClear hc s) = map (\<lambda>i. \<lparr> w_id = i, busy = False, currentId = None \<rparr>) [0 ..< concurrency hc]"
  by (simp_all add: handleClear_def terminateWorkers_def initWorkers_def)

lemma fresh_all_free: "list_all isFree (map (\<lambda>i. \<lparr> w_id = i, busy = False, currentId = None \<rparr>) ks)"
  by (induction ks) (auto simp: isFree_def)

lemma fresh_no_holder: "find (holds i) (map (\<lambda>i. \<lparr> w_id = i, busy = False, currentId = None \<rparr>) ks) = None"
  by (induction ks) (auto simp: holds_def)

lemma stale_after_clear:
  "handleWorkerMessage m (handleClear hc s) = countCompletion (handleClear hc s)"
proof -
  let ?c = "handleClear hc s"
  have "?c\<lparr> files := map (applyResult m) (files ?c) \<rparr> = ?c"
    by (simp add: handleClear_fields)
  moreover have "freeWorker (m_id m) ?c = ?c"
    by (rule freeWorker_none) (simp add: handleClear_fields fresh_no_holder)
  moreover have "processQueue (countCompletion ?c) = countCompletion ?c"
    by (simp add: processQueue_empty countCompletion_def handleClear_fields fresh_all_free)
  ultimately show ?thesis by (simp add: handleWorkerMessage_def)
qed

text \<open>
  Claim C3, as the code has it. When no busy slot holds the identifier of a message,
  \<open>handleWorkerMessage\<close> frees no slot: it is the registry update, the increment of
  \<open>current\<close> and the scheduler. The outcome is applied to the records with that
  identifier, and every slot that was busy is as before. A message that arrives after
  \<open>handleClear\<close> finds no record and no busy slot: the registry, the slots, the queue
  and \<open>total\<close> are as \<open>handleClear\<close> left them, and \<open>current\<close> is incremented by one.
\<close>

theorem unheld_result_frees_no_slot:
  "find (holds (m_id m)) (workersRef s) = None \<Longrightarrow>
   handleWorkerMessage m s =
     processQueue (countCompletion (s\<lparr> files := map (applyResult m) (files s) \<rparr>)) \<and>
   files (handleWorkerMessage m s) = map (applyResult m) (files s) \<and>
   length (workersRef (handleWorkerMessage m s)) = length (workersRef s) \<and>
   (\<forall>k < length (workersRef s).
      busy (workersRef s ! k) \<longrightarrow> workersRef (handleWorkerMessage m s) ! k = workersRef s ! k) \<and>
   handleWorkerMessage m (handleClear hc s') = countCompletion (handleClear hc s')"
proof -
  assume h: "find (holds (m_id m)) (workersRef s) = None"
  let ?u = "s\<lparr> files := map (applyResult m) (files s) \<rparr>"
  have "freeWorker (m_id m) ?u = ?u"
    using h by (simp add: freeWorker_none)
  then have eq: "handleWorkerMessage m s = processQueue (countCompletion ?u)"
    by (simp add: handleWorkerMessage_def)
  have w: "workersRef (countCompletion ?u) = workersRef s"
    by (simp add: countCompletion_def)
  from processQueue_keeps_busy[of "countCompletion ?u"] eq w
  have kept: "length (workersRef (handleWorkerMessage m s)) = length (workersRef s) \<and>
   (\<forall>k < length (workersRef s).
      busy (workersRef s ! k) \<longrightarrow> workersRef (handleWorkerMessage m s) ! k = workersRef s ! k)"
    by simp
  have fs: "files (handleWorkerMessage m s) = map (applyResult m) (files s)"
    by (rule handleWorkerMessage_files)
  have stale: "handleWorkerMessage m (handleClear hc s') = countCompletion (handleClear hc s')"
    by (rule stale_after_clear)
  from eq fs kept stale show ?thesis by blast
qed

theorem unheld_result_frees_no_slot_witness:
  "find (holds (m_id exampleMessageA)) (workersRef examplePairOne) = None \<and>
   map busy (workersRef examplePairOne) = [False, True] \<and>
   map status (files examplePair) = [''pending'', ''pending''] \<and>
   map status (files (handleWorkerMessage exampleMessageA examplePair)) = [''complete'', ''pending''] \<and>
   map status (files (handleWorkerMessage exampleMessageA examplePairOne)) = [''complete'', ''pending''] \<and>
   workersRef (handleWorkerMessage exampleMessageA examplePairOne) ! 1 = workersRef examplePairOne ! 1 \<and>
   handleWorkerMessage exampleMessageA (handleClear 2 examplePair) =
     countCompletion (handleClear 2 examplePair)"
proof -
  have h: "find (holds (m_id exampleMessageA)) (workersRef examplePairOne) = None"
    by code_simp
  have b: "map busy (workersRef examplePairOne) = [False, True]"
    by code_simp
  have st: "map status (files examplePair) = [''pending'', ''pending'']"
    "map status (files (handleWorkerMessage exampleMessageA examplePair)) = [''complete'', ''pending'']"
    "map status (files (handleWorkerMessage exampleMessageA examplePairOne)) = [''complete'', ''pending'']"
    by code_simp+
  from b have len: "length (workersRef examplePairOne) = 2"
    and b1: "busy (workersRef examplePairOne ! 1)"
    by (cases "workersRef examplePairOne"; auto)+
  note th = unheld_result_frees_no_slot[OF h, of 2 examplePair]
  from th have kept: "\<forall>k < length (workersRef examplePairOne).
      busy (workersRef examplePairOne ! k) \<longrightarrow>
      workersRef (handleWorkerMessage exampleMessageA examplePairOne) ! k = workersRef examplePairOne ! k"
    by blast
  from th have stale: "handleWorkerMessage exampleMessageA (handleClear 2 examplePair) =
     countCompletion (handleClear 2 examplePair)"
    by blast
  from kept len b1
  have "workersRef (handleWorkerMessage exampleMessageA examplePairOne) ! 1 = workersRef examplePairOne ! 1"
    by simp
  with stale
  have "workersRef (handleWorkerMessage exampleMessageA examplePairOne) ! 1 = workersRef examplePairOne ! 1"
    and "handleWorkerMessage exampleMessageA (handleClear 2 examplePair) =
     countCompletion (handleClear 2 examplePair)"
    by simp_all
  with h b st show ?thesis by simp
qed

text \<open>
  Claim C3 as stated fails: after the reset of \<open>examplePair\<close> the registry is empty and
  both counters are 0; the result of the terminated task \<open>t\<close>, arriving then, matches
  no record, and \<open>current\<close> becomes 1.
\<close>

theorem stale_result_counts:
  "files (handleClear 2 examplePair) = [] \<and>
   progress (handleClear 2 examplePair) = \<lparr> current = 0, total = 0 \<rparr> \<and>
   progress (handleWorkerMessage exampleMessageA (handleClear 2 examplePair)) =
     \<lparr> current = 1, total = 0 \<rparr>"
  by code_simp

subsection \<open>A result delivered twice\<close>

lemma processQueue_idem: "processQueue (processQueue s) = processQueue s"
proof (induction s rule: scheduler_induct)
  case (idle s)
  then show ?case by (simp add: processQueue_empty)
next
  case (saturated s task rest)
  then show ?case by (simp add: processQueue_nofree)
next
  case (dispatching s task rest fw)
  then show ?case by (simp add: processQueue_dispatch)
qed

lemma holder_after_processQueue:
  "w \<in> set (workersRef (processQueue s)) \<Longrightarrow> holds i w \<Longrightarrow>
   (\<exists>w' \<in> set (workersRef s). holds i w') \<or> i \<in> q_id ` set (queueRef s)"
proof (induction s rule: scheduler_induct)
  case (idle s)
  then show ?case by (auto simp: processQueue_empty split: if_splits)
next
  case (saturated s task rest)
  then show ?case by (auto simp: processQueue_nofree)
next
  case (dispatching s task rest fw)
  from dispatching.prems dispatching.hyps have "w \<in> set (workersRef (processQueue (dispatch task fw s)))"
    by (simp add: processQueue_dispatch)
  from dispatching.IH[OF this dispatching.prems(2)]
  consider w' where "w' \<in> set (workersRef (dispatch task fw s))" "holds i w'"
    | "i \<in> q_id ` set (queueRef (dispatch task fw s))"
    by blast
  then show ?case
  proof cases
    case 1
    then have "w' \<in> set (updateFirst isFree (assign task) (workersRef s))"
      by (simp add: dispatch_def)
    from set_updateFirst[OF this] show ?thesis
    proof
      assume "w' \<in> set (workersRef s)"
      with 1 show ?thesis by blast
    next
      assume "\<exists>y\<in>set (workersRef s). isFree y \<and> w' = assign task y"
      with 1 have "i = q_id task" by (auto simp: holds_def assign_def)
      with dispatching.hyps show ?thesis by simp
    qed
  next
    case 2
    with dispatching.hyps show ?thesis by (auto simp: dispatch_def)
  qed
qed

lemma applyResult_idem: "applyResult m (applyResult m f) = applyResult m f"
  by (simp add: applyResult_def)

lemma processQueue_countCompletion:
  "processQueue (countCompletion s) = countCompletion (processQueue s)"
  by (simp add: countCompletion_def processQueue_progress_upd processQueue_progress)

lemma no_holder_after_freeWorker:
  assumes "length (filter (holds i) (workersRef s)) \<le> 1"
  shows "filter (holds i) (workersRef (freeWorker i s)) = []"
proof (cases "find (holds i) (workersRef s)")
  case None
  then have "freeWorker i s = s" by (rule freeWorker_none)
  moreover from None have "filter (holds i) (workersRef s) = []"
    by (simp add: find_None_filter)
  ultimately show ?thesis by simp
next
  case (Some w)
  with assms show ?thesis by (simp add: freeWorker_def no_holder_after_release)
qed

text \<open>
  Claim C2, as the code has it. Let the identifier of the message not be in the queue
  and be held by at most one busy slot (both hold when the identifiers of the files
  are distinct). Delivering the message a second time changes nothing but
  \<open>progress.current\<close>, which it increments again: the registry, the slots, the queue,
  \<open>activeWorkers\<close>, \<open>total\<close> and the log of dispatches are as after the first
  delivery. No slot is freed again; \<open>current\<close> is incremented by every delivery.
\<close>

theorem duplicate_result_only_counts:
  assumes "m_id m \<notin> q_id ` set (queueRef s)"
    and "length (filter (holds (m_id m)) (workersRef s)) \<le> 1"
  shows "handleWorkerMessage m (handleWorkerMessage m s) = countCompletion (handleWorkerMessage m s)"
proof -
  let ?i = "m_id m"
  let ?s' = "countCompletion (freeWorker ?i (s\<lparr> files := map (applyResult m) (files s) \<rparr>))"
  let ?R = "handleWorkerMessage m s"
  have R: "?R = processQueue ?s'" by (simp add: handleWorkerMessage_def)
  have q: "queueRef ?s' = queueRef s"
    by (simp add: countCompletion_def freeWorker_def split: option.splits)
  have "filter (holds ?i) (workersRef (freeWorker ?i (s\<lparr> files := map (applyResult m) (files s) \<rparr>))) = []"
    using assms(2) by (intro no_holder_after_freeWorker) simp
  then have nh: "\<forall>w' \<in> set (workersRef ?s'). \<not> holds ?i w'"
    by (simp add: countCompletion_def filter_empty_conv)
  have "\<forall>w \<in> set (workersRef ?R). \<not> holds ?i w"
  proof
    fix w assume "w \<in> set (workersRef ?R)"
    then have "w \<in> set (workersRef (processQueue ?s'))" by (simp only: R)
    from holder_after_processQueue[OF this, of ?i] nh q assms(1) show "\<not> holds ?i w" by auto
  qed
  then have "find (holds ?i) (workersRef ?R) = None"
    by (simp add: find_None_filter filter_empty_conv)
  then have f: "freeWorker ?i ?R = ?R" by (rule freeWorker_none)
  have "?R\<lparr> files := map (applyResult m) (files ?R) \<rparr> = ?R"
    by (simp add: handleWorkerMessage_files applyResult_idem cong: map_cong)
  then have "handleWorkerMessage m ?R = processQueue (countCompletion (freeWorker ?i ?R))"
    unfolding handleWorkerMessage_def[of m ?R] by simp
  also have "\<dots> = countCompletion (processQueue ?R)"
    by (simp add: f processQueue_countCompletion)
  also have "processQueue ?R = ?R"
    by (simp only: R processQueue_idem)
  finally show ?thesis .
qed


theorem duplicate_result_only_counts_witness:
  "m_id exampleMessage \<notin> q_id ` set (queueRef exampleRunning) \<and>
   length (filter (holds (m_id exampleMessage)) (workersRef exampleRunning)) \<le> 1 \<and>
   handleWorkerMessage exampleMessage (handleWorkerMessage exampleMessage exampleRunning) =
     countCompletion (handleWorkerMessage exampleMessage exampleRunning) \<and>
   countCompletion (handleWorkerMessage exampleMessage exampleRunning) =
     (handleWorkerMessage exampleMessage exampleRunning)\<lparr> progress := \<lparr> current = 2, total = 1 \<rparr> \<rparr>"
proof -
  have a: "m_id exampleMessage \<notin> q_id ` set (queueRef exampleRunning)"
    by code_simp
  have b: "length (filter (holds (m_id exampleMessage)) (workersRef exampleRunning)) \<le> 1"
    by code_simp
  have "progress (handleWorkerMessage exampleMessage exampleRunning) = \<lparr> current = 1, total = 1 \<rparr>"
    by code_simp
  then have c: "countCompletion (handleWorkerMessage exampleMessage exampleRunning) =
     (handleWorkerMessage exampleMessage exampleRunning)\<lparr> progress := \<lparr> current = 2, total = 1 \<rparr> \<rparr>"
    by (simp add: countCompletion_def)
  from duplicate_result_only_counts[OF a b] a b c show ?thesis by simp
qed

text \<open>
  Claim C2 as stated fails: the result of \<open>t1\<close> delivered once leaves \<open>current = 1\<close>,
  delivered twice \<open>current = 2\<close>.
\<close>

theorem duplicate_result_counts_twice:
  "progress (handleWorkerMessage exampleMessage exampleRunning) = \<lparr> current = 1, total = 1 \<rparr> \<and>
   progress (handleWorkerMessage exampleMessage (handleWorkerMessage exampleMessage exampleRunning)) =
     \<lparr> current = 2, total = 1 \<rparr>"
  by code_simp

subsection \<open>Dispatch order with one slot\<close>

lemma processQueue_single_busy:
  "workersRef s = [w] \<Longrightarrow> busy w \<Longrightarrow> processQueue s = s"
  by (cases "queueRef s") (simp_all add: processQueue_empty processQueue_nofree isFree_def)

lemma processQueue_single_free:
  assumes "workersRef s = [w]" and "\<not> busy w" and "queueRef s = task # rest"
  shows "processQueue s = dispatch task w s"
proof -
  from assms have "find isFree (workersRef s) = Some w" by (simp add: isFree_def)
  with assms have "processQueue s = processQueue (dispatch task w s)"
    by (simp add: processQueue_dispatch)
  moreover have "workersRef (dispatch task w s) = [assign task w]"
    using assms by (simp add: dispatch_def isFree_def)
  moreover have "busy (assign task w)" by (simp add: assign_def)
  ultimately show ?thesis by (simp add: processQueue_single_busy)
qed

lemma m_id_workerOnMessage: "m_id (workerOnMessage transform t) = q_id t"
  by (simp add: workerOnMessage_def split: sum.splits)

lemma single_completion:
  assumes "workersRef s = [w]" and "busy w" and "currentId w = Some (m_id m)"
  shows "queueRef s = [] \<Longrightarrow>
           posted (handleWorkerMessage m s) = posted s \<and>
           workersRef (handleWorkerMessage m s) = [release w] \<and>
           queueRef (handleWorkerMessage m s) = []"
    and "queueRef s = task # rest \<Longrightarrow>
           posted (handleWorkerMessage m s) = posted s @ [(w_id w, task)] \<and>
           workersRef (handleWorkerMessage m s) = [assign task (release w)] \<and>
           queueRef (handleWorkerMessage m s) = rest"
proof -
  let ?u = "countCompletion (freeWorker (m_id m) (s\<lparr> files := map (applyResult m) (files s) \<rparr>))"
  have h: "holds (m_id m) w" using assms by (simp add: holds_def)
  then have w: "workersRef ?u = [release w]"
    using assms by (simp add: countCompletion_def freeWorker_def)
  have f: "\<not> busy (release w)" by (simp add: release_def)
  have q: "queueRef ?u = queueRef s" and p: "posted ?u = posted s"
    using assms h by (simp_all add: countCompletion_def freeWorker_def)
  {
    assume "queueRef s = []"
    with q w f show "posted (handleWorkerMessage m s) = posted s \<and>
           workersRef (handleWorkerMessage m s) = [release w] \<and>
           queueRef (handleWorkerMessage m s) = []"
      unfolding handleWorkerMessage_def by (simp add: processQueue_empty p)
  next
    assume "queueRef s = task # rest"
    with q have "queueRef ?u = task # rest" by simp
    from processQueue_single_free[OF w f this] w p q \<open>queueRef s = task # rest\<close>
    show "posted (handleWorkerMessage m s) = posted s @ [(w_id w, task)] \<and>
           workersRef (handleWorkerMessage m s) = [assign task (release w)] \<and>
           queueRef (handleWorkerMessage m s) = rest"
      unfolding handleWorkerMessage_def by (simp add: dispatch_def isFree_def release_def)
  }
qed

lemma heldTask_single:
  assumes "workersRef s = [w]" and "busy w" and "currentId w = Some (q_id t)" and "posted s = ps @ [(k, t)]"
  shows "heldTask s = Some t"
  using assms by (simp add: heldTask_def)

lemma completeHeld_no_busy:
  "find busy (workersRef s) = None \<Longrightarrow> completeHeld transform n s = s"
  by (cases n) (simp_all add: heldTask_def)

lemma completeHeld_single:
  assumes "workersRef s = [w]" and "busy w" and "currentId w = Some (q_id t)" and "posted s = ps @ [(k, t)]"
  shows "map snd (posted (completeHeld transform n s)) = map snd (posted s) @ take n (queueRef s)"
  using assms
proof (induction n arbitrary: s w t ps k)
  case 0
  then show ?case by simp
next
  case (Suc n)
  let ?m = "workerOnMessage transform t"
  let ?s' = "handleWorkerMessage ?m s"
  have held: "heldTask s = Some t"
    using Suc.prems by (rule heldTask_single)
  have cur: "currentId w = Some (m_id ?m)"
    using Suc.prems(3) by (simp add: m_id_workerOnMessage)
  show ?case
  proof (cases "queueRef s")
    case Nil
    from single_completion(1)[OF Suc.prems(1,2) cur Nil]
    have "posted ?s' = posted s" and "find busy (workersRef ?s') = None"
      by (simp_all add: release_def)
    with held Nil show ?thesis by (simp add: completeHeld_no_busy)
  next
    case (Cons task rest)
    from single_completion(2)[OF Suc.prems(1,2) cur Cons]
    have p: "posted ?s' = posted s @ [(w_id w, task)]"
      and w: "workersRef ?s' = [assign task (release w)]"
      and q: "queueRef ?s' = rest"
      by simp_all
    have "map snd (posted (completeHeld transform n ?s')) = map snd (posted ?s') @ take n (queueRef ?s')"
      by (rule Suc.IH[OF w _ _ p]) (simp_all add: assign_def)
    with held Cons p q show ?thesis by simp
  qed
qed

text \<open>
  Claim C8. Let the pool have one slot, free, and the queue be empty. After
  \<open>handleConvert\<close> and \<open>n\<close> completions the payloads posted to the worker are the
  first \<open>n + 1\<close> idle records of \<open>files\<close>, in the order of \<open>files\<close>, which is the order
  in which \<open>handleConvert\<close> pushed them on the queue; once every task has been answered
  the identifiers dispatched are those of all the idle records, in that order.
\<close>

theorem single_slot_dispatch_is_fifo:
  assumes "workersRef s = [w]" and "\<not> busy w" and "queueRef s = []"
  shows "map snd (posted (completeHeld transform n (handleConvert s))) =
           map snd (posted s) @ take (Suc n) (map enqueueTask (filter isIdle (files s))) \<and>
         map (\<lambda>p. q_id (snd p))
           (posted (completeHeld transform (length (filter isIdle (files s))) (handleConvert s))) =
           map (\<lambda>p. q_id (snd p)) (posted s) @ map f_id (filter isIdle (files s))"
proof -
  have main: "map snd (posted (completeHeld transform n (handleConvert s))) =
           map snd (posted s) @ take (Suc n) (map enqueueTask (filter isIdle (files s)))" for n
  proof (cases "filter isIdle (files s)")
    case Nil
    then have "handleConvert s = s" by (simp add: handleConvert_def)
    moreover have "find busy (workersRef s) = None" using assms by simp
    ultimately show ?thesis using Nil by (simp add: completeHeld_no_busy)
  next
    case (Cons f fs)
    let ?u = "s\<lparr> isProcessing := True,
            progress := \<lparr> current = current (progress s),
                          total = total (progress s) + int (length (filter isIdle (files s))) \<rparr>,
            queueRef := queueRef s @ map enqueueTask (filter isIdle (files s)),
            files := map (\<lambda>f. if isIdle f then f\<lparr> status := ''pending'' \<rparr> else f) (files s) \<rparr>"
    have hc: "handleConvert s = processQueue ?u"
      using Cons by (simp add: handleConvert_def Let_def)
    have wu: "workersRef ?u = [w]" using assms by simp
    have qu: "queueRef ?u = enqueueTask f # map enqueueTask fs" using assms Cons by simp
    from processQueue_single_free[OF wu assms(2) qu]
    have d: "handleConvert s = dispatch (enqueueTask f) w ?u" by (simp add: hc)
    have "map snd (posted (completeHeld transform n (dispatch (enqueueTask f) w ?u))) =
          map snd (posted (dispatch (enqueueTask f) w ?u)) @ take n (queueRef (dispatch (enqueueTask f) w ?u))"
    proof (rule completeHeld_single)
      show "workersRef (dispatch (enqueueTask f) w ?u) = [assign (enqueueTask f) w]"
        using assms by (simp add: dispatch_def isFree_def)
      show "busy (assign (enqueueTask f) w)" by (simp add: assign_def)
      show "currentId (assign (enqueueTask f) w) = Some (q_id (enqueueTask f))"
        by (simp add: assign_def)
      show "posted (dispatch (enqueueTask f) w ?u) = posted s @ [(w_id w, enqueueTask f)]"
        by (simp add: dispatch_def)
    qed
    with d Cons assms show ?thesis by (simp add: dispatch_def)
  qed
  have "map (\<lambda>p. q_id (snd p))
           (posted (completeHeld transform (length (filter isIdle (files s))) (handleConvert s))) =
        map q_id (map snd (posted (completeHeld transform (length (filter isIdle (files s))) (handleConvert s))))"
    by simp
  also have "\<dots> = map q_id (map snd (posted s) @ map enqueueTask (filter isIdle (files s)))"
    by (simp only: main) simp
  also have "\<dots> = map (\<lambda>p. q_id (snd p)) (posted s) @ map f_id (filter isIdle (files s))"
    by (simp add: enqueueTask_def comp_def)
  finally show ?thesis using main by blast
qed

theorem single_slot_dispatch_is_fifo_witness:
  "map f_id (files exampleThree) = [''t'', ''tt'', ''ttt''] \<and>
   map busy (workersRef exampleThree) = [False] \<and>
   queueRef exampleThree = [] \<and>
   map (\<lambda>p. q_id (snd p)) (posted (handleConvert exampleThree)) = [''t''] \<and>
   map (\<lambda>p. q_id (snd p)) (posted (completeHeld emptyOutput 1 (handleConvert exampleThree))) =
     [''t'', ''tt''] \<and>
   map (\<lambda>p. q_id (snd p)) (posted (completeHeld emptyOutput 3 (handleConvert exampleThree))) =
     [''t'', ''tt'', ''ttt'']"
proof -
  have w: "workersRef exampleThree = [\<lparr> w_id = 0, busy = False, currentId = None \<rparr>]"
    and q: "queueRef exampleThree = []"
    and p: "posted exampleThree = []"
    by code_simp+
  have nb: "\<not> busy \<lparr> w_id = 0, busy = False, currentId = None \<rparr>" by simp
  have idle: "map f_id (filter isIdle (files exampleThree)) = [''t'', ''tt'', ''ttt'']"
    and fs: "map f_id (files exampleThree) = [''t'', ''tt'', ''ttt'']"
    by code_simp+
  then have len: "length (filter isIdle (files exampleThree)) = 3"
    by (metis length_map length_Cons list.size(3) numeral_3_eq_3)
  have tasks: "map q_id (map enqueueTask (filter isIdle (files exampleThree))) = [''t'', ''tt'', ''ttt'']"
    using idle by (simp add: enqueueTask_def comp_def)
  note fifo = single_slot_dispatch_is_fifo[OF w nb q, where transform = emptyOutput]
  have "map q_id (map snd (posted (completeHeld emptyOutput n (handleConvert exampleThree)))) =
        take (Suc n) [''t'', ''tt'', ''ttt'']" for n
    using fifo[of n] tasks by (simp add: p take_map[symmetric] del: map_map)
  from this[of 0] this[of 1] this[of 3]
  have "map (\<lambda>p. q_id (snd p)) (posted (handleConvert exampleThree)) = [''t'']"
    and "map (\<lambda>p. q_id (snd p)) (posted (completeHeld emptyOutput 1 (handleConvert exampleThree))) =
     [''t'', ''tt'']"
    and "map (\<lambda>p. q_id (snd p)) (posted (completeHeld emptyOutput 3 (handleConvert exampleThree))) =
     [''t'', ''tt'', ''ttt'']"
    by (simp_all add: comp_def)
  with w q fs show ?thesis by simp
qed

end
